theory Spec2Isabelle
  imports Main
begin

section \<open>DayZ mod update notifier: the data of \<open>mod_notifier.py\<close>\<close>

text \<open>
  The table \<open>mod_updates\<close> has the primary key \<open>mod_id\<close> and the columns
  \<open>last_updated\<close>, \<open>mod_name\<close> and \<open>last_checked\<close>: a partial map from ids to rows.
\<close>

type_synonym mod_id = string

record mod_row =
  last_updated :: int
  mod_name :: string
  last_checked :: int

type_synonym database = "mod_id \<rightharpoonup> mod_row"

text \<open>
  One entry of \<open>publishedfiledetails\<close> in the reply of the Steam API. The code reads
  \<open>result\<close> and \<open>publishedfileid\<close> with \<open>[...]\<close> (a missing key raises \<open>KeyError\<close>)
  and \<open>title\<close> and \<open>time_updated\<close> with \<open>.get\<close> (a missing key has a default), so
  each key is optional here. A key that is present has a value of the type the Steam API
  sends: an integer result code, the id as a string, a string title, an integer time.
\<close>

record file_details =
  fd_result :: "int option"
  fd_publishedfileid :: "mod_id option"
  fd_title :: "string option"
  fd_time_updated :: "int option"

text \<open>
  What \<open>get_mod_info\<close> returns: \<open>None\<close> after a \<open>RequestException\<close>; a JSON value
  that is falsy or has no key \<open>response\<close>; or a JSON object whose \<open>response\<close> may or
  may not have the key \<open>publishedfiledetails\<close>.
\<close>

datatype mod_data =
    ReplyNone
  | NoResponse
  | Response "file_details list option"

text \<open>The dictionaries appended to \<open>updated_mods\<close>.\<close>

record updated_mod =
  um_id :: mod_id
  um_name :: string
  um_updated :: string
  um_url :: string

text \<open>
  The exceptions that leave \<open>check_for_updates\<close>: a missing key; \<open>OverflowError\<close> of
  \<open>sqlite3\<close> for an integer parameter outside 64 bits; and what
  \<open>datetime.fromtimestamp\<close> raises for a time it cannot render.
\<close>

datatype error = KeyError string | OverflowError | TimestampError

text \<open>
  What a cycle does to the outside, in order: the POST of a batch to the Steam API and
  \<open>time.sleep\<close>.
\<close>

datatype effect = Post "mod_id list" | Sleep nat

text \<open>
  The outside of one cycle. \<open>get_mod_info w k batch\<close> is the reply to the \<open>k\<close>-th request
  of the cycle; \<open>time_time w k\<close> is the value of \<open>int(time.time())\<close> at the \<open>k\<close>-th
  reading of the clock in the cycle; \<open>fromtimestamp w t\<close> is
  \<open>datetime.fromtimestamp(t).strftime('%Y-%m-%d %H:%M:%S')\<close>, which depends on the
  time zone of the host and raises for a timestamp out of the platform's range
  (\<open>None\<close>).
\<close>

record world =
  get_mod_info :: "nat \<Rightarrow> mod_id list \<Rightarrow> mod_data"
  time_time :: "nat \<Rightarrow> int"
  fromtimestamp :: "int \<Rightarrow> string option"

text \<open>
  The state the inner loop works on: the table (inside the open transaction), the list
  \<open>updated_mods\<close> and the number of clock readings so far.
\<close>

record store =
  db :: database
  updated_mods :: "updated_mod list"
  clock_reads :: nat

record cycle_state =
  cs_store :: store
  api_calls :: nat
  trace :: "effect list"

section \<open>Batching\<close>

definition batch_size :: nat where
  "batch_size = 100"

text \<open>\<open>range(i, stop, batch_size)\<close>\<close>

function batch_starts :: "nat \<Rightarrow> nat \<Rightarrow> nat list" where
  "batch_starts i stop = (if stop \<le> i then [] else i # batch_starts (i + batch_size) stop)"
  by pat_completeness auto
termination
  by (relation "measure (\<lambda>(i, stop). stop - i)") (auto simp: batch_size_def)

declare batch_starts.simps [simp del]

text \<open>\<open>self.mod_ids[i:i + batch_size]\<close>\<close>

definition batch_at :: "mod_id list \<Rightarrow> nat \<Rightarrow> mod_id list" where
  "batch_at mod_ids i = take batch_size (drop i mod_ids)"

text \<open>The batches of a cycle, in the order of the loop.\<close>

definition batches :: "mod_id list \<Rightarrow> mod_id list list" where
  "batches mod_ids = map (batch_at mod_ids) (batch_starts 0 (length mod_ids))"

section \<open>The cycle: \<open>check_for_updates\<close>\<close>

definition detail_url :: "mod_id \<Rightarrow> string" where
  "detail_url mid = ''https://steamcommunity.com/sharedfiles/filedetails/?id='' @ mid"

text \<open>\<open>file_details.get('title', f'Mod {mod_id}')\<close> and \<open>file_details.get('time_updated', 0)\<close>\<close>

definition title_of :: "mod_id \<Rightarrow> file_details \<Rightarrow> string" where
  "title_of mid fd = (case fd_title fd of Some t \<Rightarrow> t | None \<Rightarrow> ''Mod '' @ mid)"

definition time_updated_of :: "file_details \<Rightarrow> int" where
  "time_updated_of fd = (case fd_time_updated fd of Some t \<Rightarrow> t | None \<Rightarrow> 0)"

text \<open>The integers that \<open>sqlite3\<close> binds to a parameter: those of a signed 64-bit word.\<close>

definition sqlite_integer :: "int \<Rightarrow> bool" where
  "sqlite_integer n \<longleftrightarrow> - (2 ^ 63) \<le> n \<and> n < 2 ^ 63"

text \<open>
  The body of the inner loop, for one entry of \<open>publishedfiledetails\<close>. The INSERT and
  the first UPDATE bind the observed time and raise when it does not fit; the UPDATE of the
  changed branch runs before the entry of \<open>updated_mods\<close> is built. The readings of the
  clock are those of a host whose time fits.
\<close>

definition process_details :: "world \<Rightarrow> file_details \<Rightarrow> store \<Rightarrow> error + store" where
  "process_details w fd s =
    (case fd_result fd of
       None \<Rightarrow> Inl (KeyError ''result'')
     | Some rc \<Rightarrow>
        if rc \<noteq> 1 then Inr s
        else
          (case fd_publishedfileid fd of
             None \<Rightarrow> Inl (KeyError ''publishedfileid'')
           | Some mid \<Rightarrow>
              let name = title_of mid fd;
                  updated = time_updated_of fd;
                  now = time_time w (clock_reads s);
                  s1 = s\<lparr>clock_reads := Suc (clock_reads s)\<rparr>
              in
                (case db s mid of
                   None \<Rightarrow>
                     if \<not> sqlite_integer updated then Inl OverflowError
                     else
                       Inr (s1\<lparr>db := (db s)(mid \<mapsto>
                         \<lparr>last_updated = updated, mod_name = name, last_checked = now\<rparr>)\<rparr>)
                 | Some row \<Rightarrow>
                     if last_updated row < updated then
                       if \<not> sqlite_integer updated then Inl OverflowError
                       else
                       (case fromtimestamp w updated of
                          None \<Rightarrow> Inl TimestampError
                        | Some shown \<Rightarrow>
                            Inr (s1\<lparr>db := (db s)(mid \<mapsto>
                                   row\<lparr>last_updated := updated, mod_name := name,
                                       last_checked := now\<rparr>),
                                 updated_mods := updated_mods s @
                                   [\<lparr>um_id = mid, um_name = name, um_updated = shown,
                                     um_url = detail_url mid\<rparr>]\<rparr>))
                     else
                       Inr (s1\<lparr>db := (db s)(mid \<mapsto> row\<lparr>last_checked := now\<rparr>)\<rparr>))))"

text \<open>\<open>for file_details in mod_data['response']['publishedfiledetails']\<close>\<close>

fun for_details :: "world \<Rightarrow> file_details list \<Rightarrow> store \<Rightarrow> error + store" where
  "for_details w [] s = Inr s"
| "for_details w (fd # fds) s =
    (case process_details w fd s of
       Inl e \<Rightarrow> Inl e
     | Inr s' \<Rightarrow> for_details w fds s')"

text \<open>
  \<open>for i in range(0, len(self.mod_ids), batch_size)\<close>, over the start indices that are
  left. A reply that is \<open>None\<close>, falsy or without \<open>response\<close> takes the \<open>continue\<close> of
  line 92, which also skips the \<open>time.sleep(1)\<close> at the end of the body. An exception
  leaves the loop with the trace so far.
\<close>

fun for_batches ::
  "world \<Rightarrow> mod_id list \<Rightarrow> nat list \<Rightarrow> cycle_state \<Rightarrow> (error \<times> effect list) + cycle_state"
where
  "for_batches w mod_ids [] c = Inr c"
| "for_batches w mod_ids (i # rest) c =
    (let batch = batch_at mod_ids i;
         reply = get_mod_info w (api_calls c) batch;
         c1 = c\<lparr>api_calls := Suc (api_calls c), trace := trace c @ [Post batch]\<rparr>
     in
       (case reply of
          ReplyNone \<Rightarrow> for_batches w mod_ids rest c1
        | NoResponse \<Rightarrow> for_batches w mod_ids rest c1
        | Response None \<Rightarrow> Inl (KeyError ''publishedfiledetails'', trace c1)
        | Response (Some fds) \<Rightarrow>
            (case for_details w fds (cs_store c1) of
               Inl e \<Rightarrow> Inl (e, trace c1)
             | Inr s' \<Rightarrow>
                 for_batches w mod_ids rest
                   (c1\<lparr>cs_store := s', trace := trace c1 @ [Sleep 1]\<rparr>))))"

text \<open>
  One cycle over the table \<open>db0\<close>. \<open>Inr\<close> is the state at \<open>conn.commit()\<close>, with the list
  that is returned; \<open>Inl\<close> is an exception that leaves the function before the commit,
  so that nothing of the cycle is written, with what the cycle had done to the outside
  until then.
\<close>

definition check_for_updates ::
  "world \<Rightarrow> mod_id list \<Rightarrow> database \<Rightarrow> (error \<times> effect list) + cycle_state"
where
  "check_for_updates w mod_ids db0 =
     for_batches w mod_ids (batch_starts 0 (length mod_ids))
       \<lparr>cs_store = \<lparr>db = db0, updated_mods = [], clock_reads = 0\<rparr>,
        api_calls = 0, trace = []\<rparr>"

section \<open>The notification: \<open>send_discord_notification\<close>\<close>

text \<open>
  The JSON sent to the webhook: one embed with its list of fields, and the \<open>content\<close>
  line. Strings are the UTF-8 bytes of the Python strings.
\<close>

record embed_field =
  ef_name :: string
  ef_value :: string
  ef_inline :: bool

record embed =
  em_title :: string
  em_description :: string
  em_color :: nat
  em_timestamp :: string
  em_footer_text :: string
  em_fields :: "embed_field list"

record payload =
  pl_embeds :: "embed list"
  pl_content :: string

text \<open>
  \<open>str(n)\<close> for a length, as the f-strings render it.
\<close>

function str_nat :: "nat \<Rightarrow> string" where
  "str_nat n = (if n < 10 then [''0123456789'' ! n]
                else str_nat (n div 10) @ [''0123456789'' ! (n mod 10)])"
  by pat_completeness auto
termination
  by (relation "measure (\<lambda>n. n)") auto

declare str_nat.simps [simp del]

text \<open>
  The three kinds of field the function appends: one per mod shown, the line about the
  mods that are not shown, and the fixed line about the restart.
\<close>

definition mod_field :: "updated_mod \<Rightarrow> embed_field" where
  "mod_field m =
     \<lparr>ef_name = [CHR 0xF0, CHR 0x9F, CHR 0x93, CHR 0xA6] @ '' '' @ um_name m,
      ef_value = ''**Updated:** '' @ um_updated m @ [CHR 0x0A] @ ''**ID:** `'' @ um_id m @
                 ''`'' @ [CHR 0x0A] @ ''[View on Workshop]('' @ um_url m @ '')'',
      ef_inline = True\<rparr>"

definition additional_updates_field :: "nat \<Rightarrow> embed_field" where
  "additional_updates_field extra =
     \<lparr>ef_name = [CHR 0xE2, CHR 0x9E, CHR 0x95] @ '' Additional Updates'',
      ef_value = ''And '' @ str_nat extra @ '' more mods were updated.'',
      ef_inline = False\<rparr>"

definition action_required_field :: embed_field where
  "action_required_field =
     \<lparr>ef_name = [CHR 0xE2, CHR 0x9A, CHR 0xA0, CHR 0xEF, CHR 0xB8, CHR 0x8F] @ '' Action Required'',
      ef_value = ''Your GTX Gaming server may need to be restarted to apply these mod updates.'',
      ef_inline = False\<rparr>"

text \<open>
  \<open>for mod in updated_mods[:10]: embed["fields"].append(...)\<close>
\<close>

fun append_mod_fields :: "updated_mod list \<Rightarrow> embed \<Rightarrow> embed" where
  "append_mod_fields [] e = e"
| "append_mod_fields (m # ms) e =
     append_mod_fields ms (e\<lparr>em_fields := em_fields e @ [mod_field m]\<rparr>)"

text \<open>
  The value is the list of payloads handed to \<open>requests.post\<close>: none after the early
  \<open>return\<close>, one otherwise (a \<open>RequestException\<close> of the POST is caught and printed).
  \<open>now_iso\<close> is \<open>datetime.now().isoformat()\<close>.
\<close>

definition send_discord_notification :: "string \<Rightarrow> updated_mod list \<Rightarrow> payload list" where
  "send_discord_notification now_iso ums =
     (if ums = [] then []
      else
        let embed0 =
              \<lparr>em_title = [CHR 0xF0, CHR 0x9F, CHR 0x94, CHR 0x84] @
                            '' DayZ Server Mod Updates Detected!'',
               em_description = ''**'' @ str_nat (length ums) @ '' mod(s) have been updated**'',
               em_color = 0x00ff00,
               em_timestamp = now_iso,
               em_footer_text = ''GTX Gaming DayZ Server Monitor'',
               em_fields = []\<rparr>;
            embed1 = append_mod_fields (take 10 ums) embed0;
            embed2 = (if length ums > 10
                      then embed1\<lparr>em_fields := em_fields embed1 @
                             [additional_updates_field (length ums - 10)]\<rparr>
                      else embed1);
            embed3 = embed2\<lparr>em_fields := em_fields embed2 @ [action_required_field]\<rparr>
        in [\<lparr>pl_embeds = [embed3],
             pl_content = ''@here Mod updates detected for DayZ server!''\<rparr>])"

section \<open>Vocabulary of the properties\<close>

text \<open>
  An entry counts as a successful lookup when its \<open>result\<close> is 1; it observes the id it
  carries.
\<close>

definition succeeded :: "file_details \<Rightarrow> bool" where
  "succeeded fd \<longleftrightarrow> fd_result fd = Some 1"

definition observes :: "mod_id \<Rightarrow> file_details \<Rightarrow> bool" where
  "observes mid fd \<longleftrightarrow> fd_result fd = Some 1 \<and> fd_publishedfileid fd = Some mid"

text \<open>
  The results of a cycle: the entries of the replies that are processed, in the order of
  the batches. A reply without \<open>response\<close> (the lookup of the batch failed) has none.
\<close>

definition reply_details :: "mod_data \<Rightarrow> file_details list" where
  "reply_details reply = (case reply of Response (Some fds) \<Rightarrow> fds | _ \<Rightarrow> [])"

fun results_from :: "world \<Rightarrow> mod_id list \<Rightarrow> nat \<Rightarrow> nat list \<Rightarrow> file_details list" where
  "results_from w mod_ids k [] = []"
| "results_from w mod_ids k (i # rest) =
     reply_details (get_mod_info w k (batch_at mod_ids i)) @ results_from w mod_ids (Suc k) rest"

definition cycle_results :: "world \<Rightarrow> mod_id list \<Rightarrow> file_details list" where
  "cycle_results w mod_ids = results_from w mod_ids 0 (batch_starts 0 (length mod_ids))"

text \<open>
  The entries of \<open>updated_mods\<close> for one id, and the batches posted in a trace.
\<close>

definition about :: "mod_id \<Rightarrow> updated_mod list \<Rightarrow> updated_mod list" where
  "about mid ums = filter (\<lambda>u. um_id u = mid) ums"
fun posts :: "effect list \<Rightarrow> mod_id list list" where
  "posts [] = []"
| "posts (Post b # es) = b # posts es"
| "posts (Sleep n # es) = posts es"

text \<open>The number that a string of decimal digits denotes.\<close>

definition dec_value :: "string \<Rightarrow> nat" where
  "dec_value ds = foldl (\<lambda>a ch. 10 * a + (of_char ch - 48)) 0 ds"

text \<open>
  Every successful entry of \<open>fds\<close> has a row at least as new as what it reports.
\<close>

definition dominates :: "database \<Rightarrow> file_details list \<Rightarrow> bool" where
  "dominates d fds \<longleftrightarrow>
     (\<forall>fd\<in>set fds. succeeded fd \<longrightarrow>
        (\<exists>mid row. fd_publishedfileid fd = Some mid \<and> d mid = Some row \<and>
           time_updated_of fd \<le> last_updated row))"

section \<open>Example cycle\<close>

text \<open>
  101 tracked ids, so two batches. The first lookup returns five entries: a newer version
  of mod 1, an older version of mod 2, mod 3 that has no row yet and comes without a title,
  a failed entry for mod 4, and mod 5 that has no row yet and comes without a time; the
  second lookup fails. The table has rows for the mods 1, 2 and 101.
\<close>

definition demo_ids :: "mod_id list" where
  "demo_ids = map str_nat [1..<102]"

definition demo_ids_150 :: "mod_id list" where
  "demo_ids_150 = map str_nat [1..<151]"

definition fd_changed :: file_details where
  "fd_changed = \<lparr>fd_result = Some 1, fd_publishedfileid = Some ''1'',
                  fd_title = Some ''Alpha'', fd_time_updated = Some 150\<rparr>"

definition fd_older :: file_details where
  "fd_older = \<lparr>fd_result = Some 1, fd_publishedfileid = Some ''2'',
                fd_title = Some ''Beta renamed'', fd_time_updated = Some 180\<rparr>"

definition fd_new :: file_details where
  "fd_new = \<lparr>fd_result = Some 1, fd_publishedfileid = Some ''3'',
              fd_title = None, fd_time_updated = Some 300\<rparr>"

definition fd_missing :: file_details where
  "fd_missing = \<lparr>fd_result = Some 9, fd_publishedfileid = Some ''4'',
                  fd_title = None, fd_time_updated = None\<rparr>"

definition fd_new_titled :: file_details where
  "fd_new_titled = \<lparr>fd_result = Some 1, fd_publishedfileid = Some ''5'',
                     fd_title = Some ''Epsilon'', fd_time_updated = None\<rparr>"

definition demo_world :: world where
  "demo_world =
     \<lparr>get_mod_info = (\<lambda>k batch. if k = 0
          then Response (Some [fd_changed, fd_older, fd_new, fd_missing, fd_new_titled])
          else ReplyNone),
      time_time = (\<lambda>k. 1700000000 + int k),
      fromtimestamp = (\<lambda>t. if t = 150 then Some ''1970-01-01 00:02:30'' else None)\<rparr>"

definition demo_db :: database where
  "demo_db = [''1'' \<mapsto> \<lparr>last_updated = 100, mod_name = ''Alpha old'', last_checked = 50\<rparr>,
              ''2'' \<mapsto> \<lparr>last_updated = 200, mod_name = ''Beta'', last_checked = 50\<rparr>,
              ''101'' \<mapsto> \<lparr>last_updated = 400, mod_name = ''Omega'', last_checked = 50\<rparr>]"

text \<open>
  A service whose first lookup fails and whose second lookup returns an empty list.
\<close>

definition flaky_world :: world where
  "flaky_world =
     \<lparr>get_mod_info = (\<lambda>k batch. if k = 0 then ReplyNone else Response (Some [])),
      time_time = (\<lambda>k. 1700000000 + int k),
      fromtimestamp = (\<lambda>t. None)\<rparr>"

text \<open>
  The same service, except that its second reply has \<open>response\<close> without
  \<open>publishedfiledetails\<close>.
\<close>

definition malformed_world :: world where
  "malformed_world =
     \<lparr>get_mod_info = (\<lambda>k batch. if k = 0
          then Response (Some [fd_changed, fd_older, fd_new, fd_missing, fd_new_titled])
          else Response None),
      time_time = (\<lambda>k. 1700000000 + int k),
      fromtimestamp = (\<lambda>t. if t = 150 then Some ''1970-01-01 00:02:30'' else None)\<rparr>"

text \<open>
  A service that reports for mod 1 a time in the year 31 billion, which fits 64 bits and
  which \<open>datetime.fromtimestamp\<close> does not render (it raises from the year 10000 on).
\<close>

definition fd_far :: file_details where
  "fd_far = \<lparr>fd_result = Some 1, fd_publishedfileid = Some ''1'',
              fd_title = Some ''Alpha'', fd_time_updated = Some 1000000000000000000\<rparr>"

definition far_world :: world where
  "far_world =
     \<lparr>get_mod_info = (\<lambda>k batch. if k = 0 then Response (Some [fd_far])
          else Response (Some [])),
      time_time = (\<lambda>k. 1700000000 + int k),
      fromtimestamp = (\<lambda>t. if t < 253402300800 then Some ''2023-11-14 22:13:20'' else None)\<rparr>"

definition demo_mods :: "nat \<Rightarrow> updated_mod list" where
  "demo_mods n = map (\<lambda>k. \<lparr>um_id = str_nat k, um_name = ''Mod '' @ str_nat k,
                           um_updated = ''2025-10-06 12:00:00'',
                           um_url = detail_url (str_nat k)\<rparr>) [1..<Suc n]"
section \<open>Batching: properties\<close>

lemma batch_starts_concat:
  "concat (map (batch_at xs) (batch_starts i (length xs))) = drop i xs"
proof (induction i "length xs" rule: batch_starts.induct)
  case (1 i)
  show ?case
  proof (cases "length xs \<le> i")
    case True
    then show ?thesis by (simp add: batch_starts.simps)
  next
    case False
    have "concat (map (batch_at xs) (batch_starts i (length xs))) =
          batch_at xs i @ concat (map (batch_at xs) (batch_starts (i + batch_size) (length xs)))"
      using False by (subst batch_starts.simps) simp
    also have "\<dots> = take batch_size (drop i xs) @ drop (i + batch_size) xs"
      using "1" False by (simp add: batch_at_def)
    also have "\<dots> = drop i xs"
      by (metis add.commute append_take_drop_id drop_drop)
    finally show ?thesis .
  qed
qed

text \<open>
  C10: the batches of any id sequence, concatenated in order, are the sequence itself.
\<close>

theorem batches_concat: "concat (batches mod_ids) = mod_ids"
  using batch_starts_concat [of mod_ids 0] by (simp add: batches_def)

section \<open>The cycle as one pass over its results\<close>

lemma for_details_append:
  "for_details w (xs @ ys) s =
     (case for_details w xs s of Inl e \<Rightarrow> Inl e | Inr s' \<Rightarrow> for_details w ys s')"
  by (induction xs arbitrary: s) (auto split: sum.splits)

lemma for_details_split:
  assumes "for_details w (pre @ fd # post) s = Inr s'"
  obtains s1 s2 where "for_details w pre s = Inr s1" "process_details w fd s1 = Inr s2"
    "for_details w post s2 = Inr s'"
  using assms by (auto simp: for_details_append split: sum.splits)

lemma for_batches_results:
  "for_batches w mod_ids starts c = Inr c' \<Longrightarrow>
   for_details w (results_from w mod_ids (api_calls c) starts) (cs_store c) = Inr (cs_store c')"
proof (induction starts arbitrary: c)
  case Nil
  then show ?case by simp
next
  case (Cons i rest)
  let ?c1 = "c\<lparr>api_calls := Suc (api_calls c), trace := trace c @ [Post (batch_at mod_ids i)]\<rparr>"
  show ?case
  proof (cases "get_mod_info w (api_calls c) (batch_at mod_ids i)")
    case ReplyNone
    with Cons.prems have "for_batches w mod_ids rest ?c1 = Inr c'" by (simp add: Let_def)
    from Cons.IH [OF this] ReplyNone show ?thesis by (simp add: reply_details_def)
  next
    case NoResponse
    with Cons.prems have "for_batches w mod_ids rest ?c1 = Inr c'" by (simp add: Let_def)
    from Cons.IH [OF this] NoResponse show ?thesis by (simp add: reply_details_def)
  next
    case (Response r)
    show ?thesis
    proof (cases r)
      case None
      with Response Cons.prems show ?thesis by (simp add: Let_def)
    next
      case (Some fds)
      with Response Cons.prems obtain s' where
        s': "for_details w fds (cs_store c) = Inr s'" and
        rest: "for_batches w mod_ids rest (?c1\<lparr>cs_store := s', trace := trace ?c1 @ [Sleep 1]\<rparr>) = Inr c'"
        by (auto simp: Let_def split: sum.splits)
      from Cons.IH [OF rest] s' Response Some show ?thesis
        by (simp add: reply_details_def for_details_append)
    qed
  qed
qed

lemma check_for_updates_results:
  "check_for_updates w mod_ids db0 = Inr c \<Longrightarrow>
   for_details w (cycle_results w mod_ids) \<lparr>db = db0, updated_mods = [], clock_reads = 0\<rparr>
     = Inr (cs_store c)"
  unfolding check_for_updates_def cycle_results_def
  by (drule for_batches_results) simp

text \<open>
  Entries that do not observe an id leave its row and its entries of \<open>updated_mods\<close>
  alone; every successful entry reads the clock once.
\<close>

lemma process_details_skip:
  "\<not> observes mid fd \<Longrightarrow> process_details w fd s = Inr s' \<Longrightarrow>
   db s' mid = db s mid \<and> about mid (updated_mods s') = about mid (updated_mods s)"
  by (auto simp: process_details_def observes_def about_def Let_def
           split: option.splits if_splits)

lemma for_details_skip:
  "\<forall>fd\<in>set fds. \<not> observes mid fd \<Longrightarrow> for_details w fds s = Inr s' \<Longrightarrow>
   db s' mid = db s mid \<and> about mid (updated_mods s') = about mid (updated_mods s)"
proof (induction fds arbitrary: s)
  case Nil
  then show ?case by simp
next
  case (Cons fd fds)
  from Cons.prems obtain s1 where 1: "process_details w fd s = Inr s1"
    and 2: "for_details w fds s1 = Inr s'"
    by (auto split: sum.splits)
  from Cons.prems have "\<not> observes mid fd" "\<forall>fd\<in>set fds. \<not> observes mid fd" by simp_all
  with process_details_skip [OF _ 1] Cons.IH [OF _ 2] show ?case by simp
qed

lemma process_details_reads:
  "process_details w fd s = Inr s' \<Longrightarrow>
   clock_reads s' = clock_reads s + (if succeeded fd then 1 else 0)"
  by (auto simp: process_details_def succeeded_def Let_def split: option.splits if_splits)

lemma for_details_reads:
  "for_details w fds s = Inr s' \<Longrightarrow>
   clock_reads s' = clock_reads s + length (filter succeeded fds)"
proof (induction fds arbitrary: s)
  case Nil
  then show ?case by simp
next
  case (Cons fd fds)
  from Cons.prems obtain s1 where 1: "process_details w fd s = Inr s1"
    and 2: "for_details w fds s1 = Inr s'"
    by (auto split: sum.splits)
  from process_details_reads [OF 1] Cons.IH [OF 2] show ?case by simp
qed

text \<open>
  The three branches of the body, for the id the entry observes.
\<close>

lemma process_details_changed:
  assumes "observes mid fd" "db s mid = Some row" "last_updated row < time_updated_of fd"
    and "process_details w fd s = Inr s'"
  shows "db s' mid = Some \<lparr>last_updated = time_updated_of fd, mod_name = title_of mid fd,
           last_checked = time_time w (clock_reads s)\<rparr>"
    and "\<exists>shown. fromtimestamp w (time_updated_of fd) = Some shown \<and>
           about mid (updated_mods s') = about mid (updated_mods s) @
             [\<lparr>um_id = mid, um_name = title_of mid fd, um_updated = shown,
               um_url = detail_url mid\<rparr>]"
    and "sqlite_integer (time_updated_of fd)"
  using assms
  by (auto simp: process_details_def observes_def about_def Let_def
           split: option.splits if_splits)

lemma process_details_new:
  assumes "observes mid fd" "db s mid = None" "process_details w fd s = Inr s'"
  shows "db s' mid = Some \<lparr>last_updated = time_updated_of fd, mod_name = title_of mid fd,
           last_checked = time_time w (clock_reads s)\<rparr>"
    and "about mid (updated_mods s') = about mid (updated_mods s)"
    and "sqlite_integer (time_updated_of fd)"
  using assms
  by (auto simp: process_details_def observes_def about_def Let_def
           split: option.splits if_splits)

lemma process_details_same:
  assumes "observes mid fd" "db s mid = Some row" "time_updated_of fd \<le> last_updated row"
    and "process_details w fd s = Inr s'"
  shows "db s' mid = Some (row\<lparr>last_checked := time_time w (clock_reads s)\<rparr>)"
    and "about mid (updated_mods s') = about mid (updated_mods s)"
  using assms
  by (auto simp: process_details_def observes_def about_def Let_def
           split: option.splits if_splits)
text \<open>The state around the only observation of an id in a cycle.\<close>

lemma only_observation:
  assumes run: "check_for_updates w mod_ids db0 = Inr c"
    and res: "cycle_results w mod_ids = pre @ fd # post"
    and once: "\<forall>g\<in>set (pre @ post). \<not> observes mid g"
  obtains s1 s2 where
    "process_details w fd s1 = Inr s2"
    "db s1 mid = db0 mid" "about mid (updated_mods s1) = []"
    "clock_reads s1 = length (filter succeeded pre)"
    "db (cs_store c) mid = db s2 mid"
    "about mid (updated_mods (cs_store c)) = about mid (updated_mods s2)"
proof -
  let ?s0 = "\<lparr>db = db0, updated_mods = [], clock_reads = 0\<rparr>"
  from check_for_updates_results [OF run] res
  have "for_details w (pre @ fd # post) ?s0 = Inr (cs_store c)" by simp
  then obtain s1 s2 where 1: "for_details w pre ?s0 = Inr s1"
    and 2: "process_details w fd s1 = Inr s2"
    and 3: "for_details w post s2 = Inr (cs_store c)"
    by (rule for_details_split)
  from once have p: "\<forall>g\<in>set pre. \<not> observes mid g" and q: "\<forall>g\<in>set post. \<not> observes mid g"
    by simp_all
  from for_details_skip [OF p 1] have a: "db s1 mid = db0 mid" "about mid (updated_mods s1) = []"
    by (simp_all add: about_def)
  from for_details_reads [OF 1] have b: "clock_reads s1 = length (filter succeeded pre)" by simp
  from for_details_skip [OF q 3] have d: "db (cs_store c) mid = db s2 mid"
    "about mid (updated_mods (cs_store c)) = about mid (updated_mods s2)" by simp_all
  from 2 a b d show ?thesis by (rule that)
qed

section \<open>The example, evaluated\<close>

lemma demo_starts: "batch_starts 0 (length demo_ids) = [0, 100]"
  by (simp add: demo_ids_def batch_starts.simps batch_size_def)

lemma demo_starts_150: "batch_starts 0 (length demo_ids_150) = [0, 100]"
  by (simp add: demo_ids_150_def batch_starts.simps batch_size_def)

lemma demo_second_batch: "batch_at demo_ids 100 = [''101'']"
  by (simp add: batch_at_def demo_ids_def batch_size_def drop_map str_nat.simps)

lemma demo_results:
  "cycle_results demo_world demo_ids =
     [fd_changed, fd_older, fd_new, fd_missing, fd_new_titled]"
  by (simp add: cycle_results_def demo_starts demo_world_def reply_details_def)

lemmas demo_entries =
  fd_changed_def fd_older_def fd_new_def fd_missing_def fd_new_titled_def

lemma demo_run:
  "\<exists>c. check_for_updates demo_world demo_ids demo_db = Inr c \<and> updated_mods (cs_store c) \<noteq> []"
  by (simp add: check_for_updates_def demo_starts demo_world_def demo_db_def Let_def
        process_details_def demo_entries title_of_def time_updated_of_def
        sqlite_integer_def)

lemma demo_run_150:
  "\<exists>c. check_for_updates demo_world demo_ids_150 demo_db = Inr c"
  by (simp add: check_for_updates_def demo_starts_150 demo_world_def demo_db_def Let_def
        process_details_def demo_entries title_of_def time_updated_of_def
        sqlite_integer_def)

section \<open>Reconciliation of one id\<close>

text \<open>
  C1: in a cycle that reaches its commit, an id that is observed by one successful entry,
  and whose row is older than the entry, gets exactly one entry in \<open>updated_mods\<close>, with
  the observed name (the title, or \<open>Mod\<close> and the id without one), the observed time (0
  without one) as \<open>fromtimestamp\<close> shows it, and the Workshop URL that ends in the id; its
  row then holds the observed time and name, and as \<open>last_checked\<close> the clock reading taken
  at that entry. The observed time of such a cycle fits 64 bits and can be rendered.
\<close>

theorem change_detected:
  assumes "check_for_updates w mod_ids db0 = Inr c"
    and "cycle_results w mod_ids = pre @ fd # post"
    and "fd_result fd = Some 1" and "fd_publishedfileid fd = Some mid"
    and "\<forall>g\<in>set (pre @ post). fd_result g = Some 1 \<longrightarrow> fd_publishedfileid g \<noteq> Some mid"
    and "db0 mid = Some row"
    and "t = (case fd_time_updated fd of Some x \<Rightarrow> x | None \<Rightarrow> 0)"
    and "name = (case fd_title fd of Some x \<Rightarrow> x | None \<Rightarrow> ''Mod '' @ mid)"
    and "last_updated row < t"
  shows "(\<exists>shown. fromtimestamp w t = Some shown \<and>
            filter (\<lambda>u. um_id u = mid) (updated_mods (cs_store c)) =
              [\<lparr>um_id = mid, um_name = name, um_updated = shown,
                um_url = ''https://steamcommunity.com/sharedfiles/filedetails/?id='' @ mid\<rparr>]) \<and>
         db (cs_store c) mid =
           Some \<lparr>last_updated = t, mod_name = name,
                 last_checked =
                   time_time w (length (filter (\<lambda>g. fd_result g = Some 1) pre))\<rparr> \<and>
         - 9223372036854775808 \<le> t \<and> t < 9223372036854775808"
proof -
  have obs: "observes mid fd"
    using assms(3,4) by (simp add: observes_def)
  have once: "\<forall>g\<in>set (pre @ post). \<not> observes mid g"
    using assms(5) by (auto simp: observes_def)
  have t: "t = time_updated_of fd" and name: "name = title_of mid fd"
    using assms(7,8) by (simp_all add: time_updated_of_def title_of_def)
  have reads: "filter succeeded pre = filter (\<lambda>g. fd_result g = Some 1) pre"
    by (rule filter_cong) (simp_all add: succeeded_def)
  from assms(1,2) once obtain s1 s2 where
    step: "process_details w fd s1 = Inr s2" and
    before: "db s1 mid = db0 mid" "about mid (updated_mods s1) = []"
      "clock_reads s1 = length (filter succeeded pre)" and
    after: "db (cs_store c) mid = db s2 mid"
      "about mid (updated_mods (cs_store c)) = about mid (updated_mods s2)"
    by (rule only_observation)
  from before assms(6) have row: "db s1 mid = Some row" by simp
  have lt: "last_updated row < time_updated_of fd"
    using assms(9) t by simp
  from process_details_changed [OF obs row lt step] before after reads
  show ?thesis
    by (simp add: t name about_def detail_url_def sqlite_integer_def)
qed

theorem change_detected_witness:
  "\<exists>c. check_for_updates demo_world demo_ids demo_db = Inr c \<and>
       cycle_results demo_world demo_ids =
         [] @ fd_changed # [fd_older, fd_new, fd_missing, fd_new_titled] \<and>
       fd_result fd_changed = Some 1 \<and> fd_publishedfileid fd_changed = Some ''1'' \<and>
       fd_title fd_changed = Some ''Alpha'' \<and> fd_time_updated fd_changed = Some 150 \<and>
       demo_db ''1'' = Some \<lparr>last_updated = 100, mod_name = ''Alpha old'', last_checked = 50\<rparr> \<and>
       filter (\<lambda>u. um_id u = ''1'') (updated_mods (cs_store c)) =
         [\<lparr>um_id = ''1'', um_name = ''Alpha'', um_updated = ''1970-01-01 00:02:30'',
           um_url = ''https://steamcommunity.com/sharedfiles/filedetails/?id=1''\<rparr>] \<and>
       db (cs_store c) ''1'' =
         Some \<lparr>last_updated = 150, mod_name = ''Alpha'', last_checked = 1700000000\<rparr>"
proof -
  from demo_run obtain c where run: "check_for_updates demo_world demo_ids demo_db = Inr c"
    by blast
  have res: "cycle_results demo_world demo_ids =
      [] @ fd_changed # [fd_older, fd_new, fd_missing, fd_new_titled]"
    by (simp add: demo_results)
  have ok: "fd_result fd_changed = Some 1" and mid: "fd_publishedfileid fd_changed = Some ''1''"
    and title: "fd_title fd_changed = Some ''Alpha''"
    and time: "fd_time_updated fd_changed = Some 150"
    by (simp_all add: fd_changed_def)
  have once: "\<forall>g\<in>set ([] @ [fd_older, fd_new, fd_missing, fd_new_titled]).
      fd_result g = Some 1 \<longrightarrow> fd_publishedfileid g \<noteq> Some ''1''"
    by (simp add: demo_entries)
  have row: "demo_db ''1'' = Some \<lparr>last_updated = 100, mod_name = ''Alpha old'', last_checked = 50\<rparr>"
    by (simp add: demo_db_def)
  have t: "(150::int) = (case fd_time_updated fd_changed of Some x \<Rightarrow> x | None \<Rightarrow> 0)"
    by (simp add: time)
  have name: "''Alpha'' = (case fd_title fd_changed of Some x \<Rightarrow> x | None \<Rightarrow> ''Mod '' @ ''1'')"
    by (simp add: title)
  have lt: "last_updated \<lparr>last_updated = 100, mod_name = ''Alpha old'', last_checked = 50\<rparr>
              < (150::int)"
    by simp
  from change_detected [OF run res ok mid once row t name lt]
  have "filter (\<lambda>u. um_id u = ''1'') (updated_mods (cs_store c)) =
         [\<lparr>um_id = ''1'', um_name = ''Alpha'', um_updated = ''1970-01-01 00:02:30'',
           um_url = ''https://steamcommunity.com/sharedfiles/filedetails/?id=1''\<rparr>] \<and>
       db (cs_store c) ''1'' =
         Some \<lparr>last_updated = 150, mod_name = ''Alpha'', last_checked = 1700000000\<rparr>"
    by (auto simp: demo_world_def)
  with run res ok mid title time row show ?thesis by blast
qed

text \<open>
  The cycle of \<open>far_world\<close>: mod 1 has a row that is older than the reported time, the
  UPDATE runs, \<open>datetime.fromtimestamp\<close> raises, and the cycle ends before its commit with
  no list returned and nothing written.
\<close>

theorem unrenderable_change_aborts:
  "cycle_results far_world demo_ids = [fd_far] \<and>
   fd_result fd_far = Some 1 \<and> fd_publishedfileid fd_far = Some ''1'' \<and>
   fd_time_updated fd_far = Some 1000000000000000000 \<and>
   demo_db ''1'' = Some \<lparr>last_updated = 100, mod_name = ''Alpha old'', last_checked = 50\<rparr> \<and>
   check_for_updates far_world demo_ids demo_db =
     Inl (TimestampError, [Post (batch_at demo_ids 0)])"
  by (simp add: cycle_results_def check_for_updates_def demo_starts far_world_def
        reply_details_def fd_far_def demo_db_def Let_def process_details_def
        title_of_def time_updated_of_def sqlite_integer_def)

text \<open>
  C2: in a cycle that reaches its commit, an id without a row that is observed by one
  successful entry gets a row with the observed time (0 without one) and the observed
  name (the title, or \<open>Mod\<close> and the id without one), and as \<open>last_checked\<close> the clock
  reading taken at that entry; \<open>updated_mods\<close> has no entry for it. The observed time of
  such a cycle fits 64 bits.
\<close>

theorem first_seen:
  assumes "check_for_updates w mod_ids db0 = Inr c"
    and "cycle_results w mod_ids = pre @ fd # post"
    and "fd_result fd = Some 1" and "fd_publishedfileid fd = Some mid"
    and "\<forall>g\<in>set (pre @ post). fd_result g = Some 1 \<longrightarrow> fd_publishedfileid g \<noteq> Some mid"
    and "db0 mid = None"
    and "t = (case fd_time_updated fd of Some x \<Rightarrow> x | None \<Rightarrow> 0)"
    and "name = (case fd_title fd of Some x \<Rightarrow> x | None \<Rightarrow> ''Mod '' @ mid)"
  shows "db (cs_store c) mid =
           Some \<lparr>last_updated = t, mod_name = name,
                 last_checked =
                   time_time w (length (filter (\<lambda>g. fd_result g = Some 1) pre))\<rparr> \<and>
         filter (\<lambda>u. um_id u = mid) (updated_mods (cs_store c)) = [] \<and>
         - 9223372036854775808 \<le> t \<and> t < 9223372036854775808"
proof -
  have obs: "observes mid fd"
    using assms(3,4) by (simp add: observes_def)
  have once: "\<forall>g\<in>set (pre @ post). \<not> observes mid g"
    using assms(5) by (auto simp: observes_def)
  have t: "t = time_updated_of fd" and name: "name = title_of mid fd"
    using assms(7,8) by (simp_all add: time_updated_of_def title_of_def)
  have reads: "filter succeeded pre = filter (\<lambda>g. fd_result g = Some 1) pre"
    by (rule filter_cong) (simp_all add: succeeded_def)
  from assms(1,2) once obtain s1 s2 where
    step: "process_details w fd s1 = Inr s2" and
    before: "db s1 mid = db0 mid" "about mid (updated_mods s1) = []"
      "clock_reads s1 = length (filter succeeded pre)" and
    after: "db (cs_store c) mid = db s2 mid"
      "about mid (updated_mods (cs_store c)) = about mid (updated_mods s2)"
    by (rule only_observation)
  from before assms(6) have none: "db s1 mid = None" by simp
  from process_details_new [OF obs none step] before after reads
  show ?thesis
    by (simp add: t name about_def sqlite_integer_def)
qed

theorem first_seen_witness:
  "\<exists>c. check_for_updates demo_world demo_ids demo_db = Inr c \<and>
       cycle_results demo_world demo_ids =
         [fd_changed, fd_older, fd_new, fd_missing] @ fd_new_titled # [] \<and>
       fd_result fd_new_titled = Some 1 \<and> fd_publishedfileid fd_new_titled = Some ''5'' \<and>
       fd_title fd_new_titled = Some ''Epsilon'' \<and> fd_time_updated fd_new_titled = None \<and>
       demo_db ''5'' = None \<and>
       db (cs_store c) ''5'' =
         Some \<lparr>last_updated = 0, mod_name = ''Epsilon'', last_checked = 1700000003\<rparr> \<and>
       filter (\<lambda>u. um_id u = ''5'') (updated_mods (cs_store c)) = [] \<and>
       fd_result fd_new = Some 1 \<and> fd_publishedfileid fd_new = Some ''3'' \<and>
       fd_title fd_new = None \<and> fd_time_updated fd_new = Some 300 \<and>
       demo_db ''3'' = None \<and>
       db (cs_store c) ''3'' =
         Some \<lparr>last_updated = 300, mod_name = ''Mod 3'', last_checked = 1700000002\<rparr> \<and>
       filter (\<lambda>u. um_id u = ''3'') (updated_mods (cs_store c)) = []"
proof -
  from demo_run obtain c where run: "check_for_updates demo_world demo_ids demo_db = Inr c"
    by blast
  have res5: "cycle_results demo_world demo_ids =
      [fd_changed, fd_older, fd_new, fd_missing] @ fd_new_titled # []"
    by (simp add: demo_results)
  have res3: "cycle_results demo_world demo_ids =
      [fd_changed, fd_older] @ fd_new # [fd_missing, fd_new_titled]"
    by (simp add: demo_results)
  have e5: "fd_result fd_new_titled = Some 1" "fd_publishedfileid fd_new_titled = Some ''5''"
    "fd_title fd_new_titled = Some ''Epsilon''" "fd_time_updated fd_new_titled = None"
    by (simp_all add: fd_new_titled_def)
  have e3: "fd_result fd_new = Some 1" "fd_publishedfileid fd_new = Some ''3''"
    "fd_title fd_new = None" "fd_time_updated fd_new = Some 300"
    by (simp_all add: fd_new_def)
  have once5: "\<forall>g\<in>set ([fd_changed, fd_older, fd_new, fd_missing] @ []).
      fd_result g = Some 1 \<longrightarrow> fd_publishedfileid g \<noteq> Some ''5''"
    by (simp add: demo_entries)
  have once3: "\<forall>g\<in>set ([fd_changed, fd_older] @ [fd_missing, fd_new_titled]).
      fd_result g = Some 1 \<longrightarrow> fd_publishedfileid g \<noteq> Some ''3''"
    by (simp add: demo_entries)
  have none: "demo_db ''5'' = None" "demo_db ''3'' = None"
    by (simp_all add: demo_db_def)
  have t5: "(0::int) = (case fd_time_updated fd_new_titled of Some x \<Rightarrow> x | None \<Rightarrow> 0)"
    and n5: "''Epsilon'' = (case fd_title fd_new_titled of Some x \<Rightarrow> x | None \<Rightarrow> ''Mod '' @ ''5'')"
    and t3: "(300::int) = (case fd_time_updated fd_new of Some x \<Rightarrow> x | None \<Rightarrow> 0)"
    and n3: "''Mod 3'' = (case fd_title fd_new of Some x \<Rightarrow> x | None \<Rightarrow> ''Mod '' @ ''3'')"
    by (simp_all add: e5 e3)
  from first_seen [OF run res5 e5(1,2) once5 none(1) t5 n5]
  have a: "db (cs_store c) ''5'' =
         Some \<lparr>last_updated = 0, mod_name = ''Epsilon'', last_checked = 1700000003\<rparr> \<and>
       filter (\<lambda>u. um_id u = ''5'') (updated_mods (cs_store c)) = []"
    by (simp add: demo_entries demo_world_def)
  from first_seen [OF run res3 e3(1,2) once3 none(2) t3 n3]
  have b: "db (cs_store c) ''3'' =
         Some \<lparr>last_updated = 300, mod_name = ''Mod 3'', last_checked = 1700000002\<rparr> \<and>
       filter (\<lambda>u. um_id u = ''3'') (updated_mods (cs_store c)) = []"
    by (simp add: demo_entries demo_world_def)
  from run res5 e5 e3 none a b show ?thesis by blast
qed

text \<open>
  C3: in a cycle that reaches its commit, an id that is observed by one successful entry
  which is not newer than its row gets no entry in \<open>updated_mods\<close>, and its row changes
  in \<open>last_checked\<close> only, which becomes the clock reading taken at that entry.
\<close>

theorem unchanged_touch:
  assumes "check_for_updates w mod_ids db0 = Inr c"
    and "cycle_results w mod_ids = pre @ fd # post"
    and "observes mid fd"
    and "\<forall>g\<in>set (pre @ post). \<not> observes mid g"
    and "db0 mid = Some row"
    and "time_updated_of fd \<le> last_updated row"
  shows "about mid (updated_mods (cs_store c)) = [] \<and>
         db (cs_store c) mid =
           Some (row\<lparr>last_checked := time_time w (length (filter succeeded pre))\<rparr>)"
proof -
  from assms(1,2,4) obtain s1 s2 where
    step: "process_details w fd s1 = Inr s2" and
    before: "db s1 mid = db0 mid" "about mid (updated_mods s1) = []"
      "clock_reads s1 = length (filter succeeded pre)" and
    after: "db (cs_store c) mid = db s2 mid"
      "about mid (updated_mods (cs_store c)) = about mid (updated_mods s2)"
    by (rule only_observation)
  from before assms(5) have row: "db s1 mid = Some row" by simp
  from process_details_same [OF assms(3) row assms(6) step] before after
  show ?thesis by simp
qed

theorem unchanged_touch_witness:
  "\<exists>c. check_for_updates demo_world demo_ids demo_db = Inr c \<and>
       observes ''2'' fd_older \<and>
       demo_db ''2'' = Some \<lparr>last_updated = 200, mod_name = ''Beta'', last_checked = 50\<rparr> \<and>
       time_updated_of fd_older = 180 \<and>
       about ''2'' (updated_mods (cs_store c)) = [] \<and>
       db (cs_store c) ''2'' =
         Some \<lparr>last_updated = 200, mod_name = ''Beta'', last_checked = 1700000001\<rparr>"
proof -
  from demo_run obtain c where run: "check_for_updates demo_world demo_ids demo_db = Inr c"
    by blast
  have res: "cycle_results demo_world demo_ids =
      [fd_changed] @ fd_older # [fd_new, fd_missing, fd_new_titled]"
    by (simp add: demo_results)
  have obs: "observes ''2'' fd_older"
    by (simp add: observes_def fd_older_def)
  have once: "\<forall>g\<in>set ([fd_changed] @ [fd_new, fd_missing, fd_new_titled]). \<not> observes ''2'' g"
    by (simp add: observes_def demo_entries)
  have row: "demo_db ''2'' = Some \<lparr>last_updated = 200, mod_name = ''Beta'', last_checked = 50\<rparr>"
    by (simp add: demo_db_def)
  have le: "time_updated_of fd_older
              \<le> last_updated \<lparr>last_updated = 200, mod_name = ''Beta'', last_checked = 50\<rparr>"
    by (simp add: time_updated_of_def fd_older_def)
  from unchanged_touch [OF run res obs once row le] run obs row
  show ?thesis
    by (auto simp: time_updated_of_def fd_changed_def fd_older_def succeeded_def demo_world_def)
qed

text \<open>
  A reply that is \<open>None\<close> or has no \<open>response\<close> is skipped: in a cycle that reaches its
  commit, an id that none of the cycle's results observes keeps its row, or the absence of
  one, and gets no entry in \<open>updated_mods\<close>, while the cycle is the pass over the results
  of the batches that did reply.
\<close>

lemma skipped_lookup_untouched:
  assumes "check_for_updates w mod_ids db0 = Inr c"
    and "\<forall>g\<in>set (cycle_results w mod_ids). \<not> observes mid g"
  shows "db (cs_store c) mid = db0 mid \<and>
         about mid (updated_mods (cs_store c)) = [] \<and>
         for_details w (cycle_results w mod_ids)
           \<lparr>db = db0, updated_mods = [], clock_reads = 0\<rparr> = Inr (cs_store c)"
proof -
  have run: "for_details w (cycle_results w mod_ids)
           \<lparr>db = db0, updated_mods = [], clock_reads = 0\<rparr> = Inr (cs_store c)"
    using assms(1) by (rule check_for_updates_results)
  from for_details_skip [OF assms(2) run] run show ?thesis
    by (simp add: about_def)
qed

lemma demo_skipped_lookup:
  "\<exists>c. check_for_updates demo_world demo_ids demo_db = Inr c \<and>
       db (cs_store c) ''101'' = demo_db ''101'' \<and>
       db (cs_store c) ''3'' =
         Some \<lparr>last_updated = 300, mod_name = ''Mod 3'', last_checked = 1700000002\<rparr>"
proof -
  from demo_run obtain c where run: "check_for_updates demo_world demo_ids demo_db = Inr c"
    by blast
  have absent: "\<forall>g\<in>set (cycle_results demo_world demo_ids). \<not> observes ''101'' g"
    by (simp add: demo_results observes_def demo_entries)
  have eq: "for_details demo_world [fd_changed, fd_older, fd_new, fd_missing, fd_new_titled]
          \<lparr>db = demo_db, updated_mods = [], clock_reads = 0\<rparr> = Inr (cs_store c)"
    using check_for_updates_results [OF run] by (simp only: demo_results)
  have "\<exists>s. for_details demo_world [fd_changed, fd_older, fd_new, fd_missing, fd_new_titled]
          \<lparr>db = demo_db, updated_mods = [], clock_reads = 0\<rparr> = Inr s \<and>
          db s ''3'' =
            Some \<lparr>last_updated = 300, mod_name = ''Mod 3'', last_checked = 1700000002\<rparr>"
    by (simp add: demo_world_def demo_db_def Let_def
        process_details_def demo_entries title_of_def time_updated_of_def
        sqlite_integer_def)
  with eq have new: "db (cs_store c) ''3'' =
            Some \<lparr>last_updated = 300, mod_name = ''Mod 3'', last_checked = 1700000002\<rparr>"
    by (simp only: sum.inject) blast
  from skipped_lookup_untouched [OF run absent] run new show ?thesis by blast
qed

text \<open>
  C4: the 101 ids of the example, the first lookup as in the example. When the second
  lookup returns \<open>None\<close>, the cycle commits: mod 101 of the failed batch keeps its row and
  mod 3 of the first batch gets its row. When the second reply has \<open>response\<close> but no
  \<open>publishedfiledetails\<close>, line 94 raises \<open>KeyError\<close> after the second request: the cycle
  ends before its commit, and the rows of the first batch are not written.
\<close>

theorem malformed_reply_aborts_cycle:
  "(\<exists>c. check_for_updates demo_world demo_ids demo_db = Inr c \<and>
        db (cs_store c) ''101'' = demo_db ''101'' \<and>
        db (cs_store c) ''3'' =
          Some \<lparr>last_updated = 300, mod_name = ''Mod 3'', last_checked = 1700000002\<rparr>) \<and>
   get_mod_info demo_world 1 (batch_at demo_ids 100) = ReplyNone \<and>
   get_mod_info malformed_world 0 (batch_at demo_ids 0) =
     get_mod_info demo_world 0 (batch_at demo_ids 0) \<and>
   get_mod_info malformed_world 1 (batch_at demo_ids 100) = Response None \<and>
   check_for_updates malformed_world demo_ids demo_db =
     Inl (KeyError ''publishedfiledetails'',
          [Post (batch_at demo_ids 0), Sleep 1, Post (batch_at demo_ids 100)])"
proof -
  have "check_for_updates malformed_world demo_ids demo_db =
     Inl (KeyError ''publishedfiledetails'',
          [Post (batch_at demo_ids 0), Sleep 1, Post (batch_at demo_ids 100)])"
    by (simp add: check_for_updates_def demo_starts malformed_world_def demo_db_def Let_def
        process_details_def demo_entries title_of_def time_updated_of_def
        sqlite_integer_def)
  with demo_skipped_lookup show ?thesis
    by (simp add: demo_world_def malformed_world_def)
qed

section \<open>Monotonicity and idempotence\<close>

lemma process_details_mono:
  "process_details w fd s = Inr s' \<Longrightarrow> db s mid = Some row \<Longrightarrow>
   \<exists>row'. db s' mid = Some row' \<and> last_updated row \<le> last_updated row'"
  by (auto simp: process_details_def Let_def split: option.splits if_splits)

lemma for_details_mono:
  "for_details w fds s = Inr s' \<Longrightarrow> db s mid = Some row \<Longrightarrow>
   \<exists>row'. db s' mid = Some row' \<and> last_updated row \<le> last_updated row'"
proof (induction fds arbitrary: s row)
  case Nil
  then show ?case by simp
next
  case (Cons fd fds)
  from Cons.prems obtain s1 where 1: "process_details w fd s = Inr s1"
    and 2: "for_details w fds s1 = Inr s'"
    by (auto split: sum.splits)
  from process_details_mono [OF 1 Cons.prems(2)] obtain row1 where
    r1: "db s1 mid = Some row1" "last_updated row \<le> last_updated row1" by blast
  from Cons.IH [OF 2 r1(1)] r1(2) show ?case by force
qed

text \<open>
  C9: a cycle that reaches its commit never lowers the \<open>last_updated\<close> of a row. In the
  example the service reports mod 2 older than its row, which keeps its time.
\<close>

theorem last_updated_monotone:
  assumes "check_for_updates w mod_ids db0 = Inr c" and "db0 mid = Some row"
  shows "\<exists>row'. db (cs_store c) mid = Some row' \<and> last_updated row \<le> last_updated row'"
proof -
  have "for_details w (cycle_results w mod_ids)
           \<lparr>db = db0, updated_mods = [], clock_reads = 0\<rparr> = Inr (cs_store c)"
    using assms(1) by (rule check_for_updates_results)
  from for_details_mono [OF this, of mid row] assms(2) show ?thesis by simp
qed

theorem last_updated_monotone_witness:
  "\<exists>c. check_for_updates demo_world demo_ids demo_db = Inr c \<and>
       demo_db ''2'' = Some \<lparr>last_updated = 200, mod_name = ''Beta'', last_checked = 50\<rparr> \<and>
       time_updated_of fd_older = 180 \<and>
       (\<exists>row'. db (cs_store c) ''2'' = Some row' \<and> 200 \<le> last_updated row')"
proof -
  from demo_run obtain c where run: "check_for_updates demo_world demo_ids demo_db = Inr c"
    by blast
  have row: "demo_db ''2'' = Some \<lparr>last_updated = 200, mod_name = ''Beta'', last_checked = 50\<rparr>"
    by (simp add: demo_db_def)
  from last_updated_monotone [OF run row] run row show ?thesis
    by (auto simp: time_updated_of_def fd_older_def)
qed

lemma dominates_append: "dominates d (xs @ ys) \<longleftrightarrow> dominates d xs \<and> dominates d ys"
  by (auto simp: dominates_def)

lemma dominates_cong:
  assumes "dominates d fds" and "\<And>m. map_option last_updated (d' m) = map_option last_updated (d m)"
  shows "dominates d' fds"
  unfolding dominates_def
proof (intro ballI impI)
  fix fd assume "fd \<in> set fds" "succeeded fd"
  with assms(1) obtain mid row where
    r: "fd_publishedfileid fd = Some mid" "d mid = Some row"
       "time_updated_of fd \<le> last_updated row"
    unfolding dominates_def by blast
  from assms(2) [of mid] r(2) obtain row' where "d' mid = Some row'"
    "last_updated row' = last_updated row" by (cases "d' mid") auto
  with r show "\<exists>mid row. fd_publishedfileid fd = Some mid \<and> d' mid = Some row \<and>
           time_updated_of fd \<le> last_updated row" by auto
qed

lemma process_details_covers:
  "process_details w fd s = Inr s' \<Longrightarrow> succeeded fd \<Longrightarrow>
   \<exists>mid row. fd_publishedfileid fd = Some mid \<and> db s' mid = Some row \<and>
     time_updated_of fd \<le> last_updated row"
  by (auto simp: process_details_def succeeded_def Let_def split: option.splits if_splits)

lemma for_details_dominates:
  "for_details w fds s = Inr s' \<Longrightarrow> dominates (db s') fds"
proof (induction fds arbitrary: s)
  case Nil
  then show ?case by (simp add: dominates_def)
next
  case (Cons fd fds)
  from Cons.prems obtain s1 where 1: "process_details w fd s = Inr s1"
    and 2: "for_details w fds s1 = Inr s'"
    by (auto split: sum.splits)
  have "dominates (db s') [fd]"
    unfolding dominates_def
  proof (intro ballI impI)
    fix g assume "g \<in> set [fd]" "succeeded g"
    then have g: "g = fd" "succeeded fd" by simp_all
    from process_details_covers [OF 1 g(2)] obtain mid row where
      r: "fd_publishedfileid fd = Some mid" "db s1 mid = Some row"
         "time_updated_of fd \<le> last_updated row" by blast
    from for_details_mono [OF 2 r(2)] obtain row' where
      "db s' mid = Some row'" "last_updated row \<le> last_updated row'" by blast
    with r g show "\<exists>mid row. fd_publishedfileid g = Some mid \<and> db s' mid = Some row \<and>
           time_updated_of g \<le> last_updated row" by force
  qed
  with Cons.IH [OF 2] dominates_append [of "db s'" "[fd]" fds] show ?case by simp
qed

lemma process_details_has_result:
  "process_details w fd s = Inr s' \<Longrightarrow> fd_result fd \<noteq> None"
  by (cases "fd_result fd") (simp_all add: process_details_def)

lemma for_details_has_result:
  "for_details w fds s = Inr s' \<Longrightarrow> \<forall>fd\<in>set fds. fd_result fd \<noteq> None"
proof (induction fds arbitrary: s)
  case Nil
  then show ?case by simp
next
  case (Cons fd fds)
  from Cons.prems obtain s1 where 1: "process_details w fd s = Inr s1"
    and 2: "for_details w fds s1 = Inr s'"
    by (auto split: sum.splits)
  from process_details_has_result [OF 1] Cons.IH [OF 2] show ?case by simp
qed

lemma process_details_quiet:
  assumes "dominates (db s) [fd]" and "fd_result fd \<noteq> None"
  shows "\<exists>s'. process_details w fd s = Inr s' \<and> updated_mods s' = updated_mods s \<and>
           (\<forall>m. map_option last_updated (db s' m) = map_option last_updated (db s m))"
proof (cases "succeeded fd")
  case False
  with assms(2) show ?thesis
    by (auto simp: process_details_def succeeded_def)
next
  case True
  with assms(1) obtain mid row where
    r: "fd_publishedfileid fd = Some mid" "db s mid = Some row"
       "time_updated_of fd \<le> last_updated row"
    unfolding dominates_def by auto
  from True r show ?thesis
    by (simp add: process_details_def succeeded_def Let_def)
qed

lemma for_details_quiet:
  "dominates (db s) fds \<Longrightarrow> \<forall>fd\<in>set fds. fd_result fd \<noteq> None \<Longrightarrow>
   \<exists>s'. for_details w fds s = Inr s' \<and> updated_mods s' = updated_mods s \<and>
           (\<forall>m. map_option last_updated (db s' m) = map_option last_updated (db s m))"
proof (induction fds arbitrary: s)
  case Nil
  then show ?case by simp
next
  case (Cons fd fds)
  from Cons.prems(1) dominates_append [of "db s" "[fd]" fds]
  have d: "dominates (db s) [fd]" "dominates (db s) fds" by simp_all
  from Cons.prems(2) have h: "fd_result fd \<noteq> None" "\<forall>fd\<in>set fds. fd_result fd \<noteq> None"
    by simp_all
  from process_details_quiet [OF d(1) h(1)] obtain s1 where
    1: "process_details w fd s = Inr s1" "updated_mods s1 = updated_mods s"
       "\<And>m. map_option last_updated (db s1 m) = map_option last_updated (db s m)"
    by blast
  from dominates_cong [OF d(2) 1(3)] have "dominates (db s1) fds" .
  from Cons.IH [OF this h(2)] obtain s' where
    2: "for_details w fds s1 = Inr s'" "updated_mods s' = updated_mods s1"
       "\<And>m. map_option last_updated (db s' m) = map_option last_updated (db s1 m)"
    by blast
  from 1 2 show ?case by simp
qed

lemma for_batches_quiet:
  assumes "for_batches w mod_ids starts c = Inr c'"
    and "get_mod_info w2 = get_mod_info w"
    and "api_calls c2 = api_calls c"
    and "dominates (db (cs_store c2)) (results_from w mod_ids (api_calls c) starts)"
  shows "\<exists>c2'. for_batches w2 mod_ids starts c2 = Inr c2' \<and>
           updated_mods (cs_store c2') = updated_mods (cs_store c2)"
  using assms
proof (induction starts arbitrary: c c2)
  case Nil
  then show ?case by simp
next
  case (Cons i rest)
  let ?b = "batch_at mod_ids i"
  let ?c1 = "c\<lparr>api_calls := Suc (api_calls c), trace := trace c @ [Post ?b]\<rparr>"
  let ?d1 = "c2\<lparr>api_calls := Suc (api_calls c2), trace := trace c2 @ [Post ?b]\<rparr>"
  have same: "get_mod_info w2 (api_calls c2) ?b = get_mod_info w (api_calls c) ?b"
    using Cons.prems(2,3) by simp
  from Cons.prems(4) have dom:
    "dominates (db (cs_store c2)) (reply_details (get_mod_info w (api_calls c) ?b))"
    "dominates (db (cs_store c2)) (results_from w mod_ids (Suc (api_calls c)) rest)"
    by (simp_all add: dominates_append)
  from Cons.prems(1) consider
    (skip) "reply_details (get_mod_info w (api_calls c) ?b) = []"
      "get_mod_info w (api_calls c) ?b = ReplyNone \<or> get_mod_info w (api_calls c) ?b = NoResponse"
      "for_batches w mod_ids rest ?c1 = Inr c'" |
    (slept) fds s' where "get_mod_info w (api_calls c) ?b = Response (Some fds)"
      "for_details w fds (cs_store c) = Inr s'"
      "for_batches w mod_ids rest (?c1\<lparr>cs_store := s', trace := trace ?c1 @ [Sleep 1]\<rparr>) = Inr c'"
    by (auto simp: Let_def reply_details_def split: mod_data.splits option.splits sum.splits)
  then show ?case
  proof cases
    case skip
    have "\<exists>c2'. for_batches w2 mod_ids rest ?d1 = Inr c2' \<and>
           updated_mods (cs_store c2') = updated_mods (cs_store ?d1)"
      using skip(3) Cons.prems(2,3) dom(2) by (intro Cons.IH [of ?c1 ?d1]) simp_all
    with skip(2) same show ?thesis by (auto simp: Let_def)
  next
    case slept
    from dom(1) slept(1) have d: "dominates (db (cs_store c2)) fds"
      by (simp add: reply_details_def)
    from for_details_quiet [OF d for_details_has_result [OF slept(2)], of w2] obtain s2 where
      2: "for_details w2 fds (cs_store c2) = Inr s2"
         "updated_mods s2 = updated_mods (cs_store c2)"
         "\<And>m. map_option last_updated (db s2 m) = map_option last_updated (db (cs_store c2) m)"
      by blast
    let ?c3 = "?c1\<lparr>cs_store := s', trace := trace ?c1 @ [Sleep 1]\<rparr>"
    let ?d3 = "?d1\<lparr>cs_store := s2, trace := trace ?d1 @ [Sleep 1]\<rparr>"
    have "dominates (db s2) (results_from w mod_ids (Suc (api_calls c)) rest)"
      using dom(2) 2(3) by (rule dominates_cong)
    then have "\<exists>c2'. for_batches w2 mod_ids rest ?d3 = Inr c2' \<and>
           updated_mods (cs_store c2') = updated_mods (cs_store ?d3)"
      using slept(3) Cons.prems(2,3) by (intro Cons.IH [of ?c3 ?d3]) simp_all
    with slept(1) same 2 show ?thesis by (auto simp: Let_def)
  qed
qed

text \<open>
  C5: after a cycle that reached its commit, a second cycle over the table it left, with
  the same replies of the service, reaches its commit with an empty \<open>updated_mods\<close>.
\<close>

theorem second_cycle_silent:
  assumes "check_for_updates w mod_ids db0 = Inr c1"
    and "get_mod_info w2 = get_mod_info w"
  shows "\<exists>c2. check_for_updates w2 mod_ids (db (cs_store c1)) = Inr c2 \<and>
           updated_mods (cs_store c2) = []"
proof -
  let ?init = "\<lambda>d. \<lparr>cs_store = \<lparr>db = d, updated_mods = [], clock_reads = 0\<rparr>,
                     api_calls = 0, trace = []\<rparr>"
  let ?starts = "batch_starts 0 (length mod_ids)"
  have run: "for_batches w mod_ids ?starts (?init db0) = Inr c1"
    using assms(1) by (simp add: check_for_updates_def)
  have "dominates (db (cs_store c1)) (cycle_results w mod_ids)"
    using check_for_updates_results [OF assms(1)] by (rule for_details_dominates)
  then have "dominates (db (cs_store (?init (db (cs_store c1)))))
               (results_from w mod_ids (api_calls (?init db0)) ?starts)"
    by (simp add: cycle_results_def)
  from for_batches_quiet [OF run assms(2) _ this]
  show ?thesis by (simp add: check_for_updates_def)
qed

theorem second_cycle_silent_witness:
  "\<exists>c1 c2. check_for_updates demo_world demo_ids demo_db = Inr c1 \<and>
       updated_mods (cs_store c1) \<noteq> [] \<and>
       check_for_updates demo_world demo_ids (db (cs_store c1)) = Inr c2 \<and>
       updated_mods (cs_store c2) = []"
proof -
  from demo_run obtain c1 where run: "check_for_updates demo_world demo_ids demo_db = Inr c1"
    and ne: "updated_mods (cs_store c1) \<noteq> []"
    by blast
  from second_cycle_silent [OF run refl] run ne show ?thesis by blast
qed

section \<open>Requests and delays\<close>

lemma posts_append: "posts (xs @ ys) = posts xs @ posts ys"
  by (induction xs rule: posts.induct) simp_all

lemma for_batches_posts:
  "for_batches w mod_ids starts c = Inr c' \<Longrightarrow>
   posts (trace c') = posts (trace c) @ map (batch_at mod_ids) starts"
proof (induction starts arbitrary: c)
  case Nil
  then show ?case by simp
next
  case (Cons i rest)
  let ?c1 = "c\<lparr>api_calls := Suc (api_calls c), trace := trace c @ [Post (batch_at mod_ids i)]\<rparr>"
  from Cons.prems consider
    (skip) "for_batches w mod_ids rest ?c1 = Inr c'" |
    (slept) s' where "for_batches w mod_ids rest
                       (?c1\<lparr>cs_store := s', trace := trace ?c1 @ [Sleep 1]\<rparr>) = Inr c'"
    by (auto simp: Let_def split: mod_data.splits option.splits sum.splits)
  then show ?case
  proof cases
    case skip
    from Cons.IH [OF this] show ?thesis by (simp add: posts_append)
  next
    case slept
    from Cons.IH [OF this] show ?thesis by (simp add: posts_append)
  qed
qed

lemma length_batch_at: "length (batch_at xs i) \<le> batch_size"
  by (simp add: batch_at_def)

lemma batch_starts_150: "batch_starts 0 150 = [0, 100]"
  by (simp add: batch_starts.simps batch_size_def)

text \<open>
  The start indices of the loop are the multiples of 100 below the length, so the batches
  are the slices of 100 ids from each of them.
\<close>

lemma batch_count_step:
  assumes "\<not> n \<le> (i::nat)"
  shows "(n - i + 99) div 100 = Suc ((n - (i + 100) + 99) div 100)"
proof (cases "n - i \<le> 100")
  case True
  with assms have "100 * 1 \<le> n - i + 99" "n - i + 99 < 100 * Suc 1" by simp_all
  then have "(n - i + 99) div 100 = 1" by (rule div_nat_eqI)
  moreover from True have "(n - (i + 100) + 99) div 100 = 0" by simp
  ultimately show ?thesis by simp
next
  case False
  then have "n - i + 99 = (n - (i + 100) + 99) + 100" by simp
  then show ?thesis by (simp only: div_add_self2)
qed

lemma batch_index_in_range:
  assumes "k < (l + 99) div (100::nat)"
  shows "100 * k < l"
proof -
  have "(l + 99) div 100 * 100 \<le> l + 99" by simp
  moreover from assms have "100 * k + 100 \<le> (l + 99) div 100 * 100" by simp
  ultimately show ?thesis by linarith
qed

lemma batch_starts_closed:
  "batch_starts i n = map (\<lambda>k. i + 100 * k) [0..<(n - i + 99) div 100]"
proof (induction i n rule: batch_starts.induct)
  case (1 i n)
  show ?case
  proof (cases "n \<le> i")
    case True
    then show ?thesis by (simp add: batch_starts.simps)
  next
    case False
    let ?m = "(n - (i + 100) + 99) div 100"
    have m: "(n - i + 99) div 100 = Suc ?m"
      using False by (rule batch_count_step)
    have "batch_starts i n = i # batch_starts (i + 100) n"
      using False by (subst batch_starts.simps) (simp add: batch_size_def)
    also have "\<dots> = i # map (\<lambda>k. i + 100 + 100 * k) [0..<?m]"
      using "1" False by (simp add: batch_size_def)
    also have "\<dots> = map (\<lambda>k. i + 100 * k) (0 # map Suc [0..<?m])"
      by simp
    also have "0 # map Suc [0..<?m] = [0..<Suc ?m]"
      by (simp only: map_Suc_upt upt_conv_Cons [of 0 "Suc ?m"] zero_less_Suc if_True)
    finally show ?thesis by (simp only: m)
  qed
qed

lemma batches_closed:
  "batches xs = map (\<lambda>k. take 100 (drop (100 * k) xs)) [0..<(length xs + 99) div 100]"
  by (simp add: batches_def batch_starts_closed batch_at_def batch_size_def comp_def)

lemma batches_nonempty: "b \<in> set (batches xs) \<Longrightarrow> b \<noteq> [] \<and> length b \<le> 100"
proof -
  assume "b \<in> set (batches xs)"
  then obtain k where k: "k < (length xs + 99) div 100" "b = take 100 (drop (100 * k) xs)"
    by (auto simp: batches_closed)
  from k(1) have "100 * k < length xs" by (rule batch_index_in_range)
  with k(2) show ?thesis by simp
qed

text \<open>
  C6: a cycle that reaches its commit posts, one request each and in order, the slices of
  100 ids from the indices 0, 100, 200 and so on below the length of the id list: they
  concatenate to the list, none is empty and none has more than 100 ids; 150 ids are two
  requests of 100 and 50 ids.
\<close>

theorem one_request_per_batch:
  assumes "check_for_updates w mod_ids db0 = Inr c"
  shows "posts (trace c) =
           map (\<lambda>k. take 100 (drop (100 * k) mod_ids)) [0..<(length mod_ids + 99) div 100] \<and>
         concat (posts (trace c)) = mod_ids \<and>
         (\<forall>b\<in>set (posts (trace c)). b \<noteq> [] \<and> length b \<le> 100) \<and>
         (length mod_ids = 150 \<longrightarrow> map length (posts (trace c)) = [100, 50])"
proof -
  have p: "posts (trace c) = batches mod_ids"
    using for_batches_posts [OF assms [unfolded check_for_updates_def]]
    by (simp add: batches_def)
  have a: "posts (trace c) =
           map (\<lambda>k. take 100 (drop (100 * k) mod_ids)) [0..<(length mod_ids + 99) div 100]"
    using p by (simp only: batches_closed)
  have b: "concat (posts (trace c)) = mod_ids"
    using p batch_starts_concat [of mod_ids 0] by (simp add: batches_def)
  have d: "\<forall>b\<in>set (posts (trace c)). b \<noteq> [] \<and> length b \<le> 100"
    using p batches_nonempty by simp
  have e: "map length (posts (trace c)) = [100, 50]" if "length mod_ids = 150"
    using that p by (simp add: batches_def batch_starts_150 batch_at_def batch_size_def)
  from a b d e show ?thesis by blast
qed

theorem one_request_per_batch_witness:
  "\<exists>c. check_for_updates demo_world demo_ids_150 demo_db = Inr c \<and>
       length demo_ids_150 = 150 \<and>
       posts (trace c) = [take 100 demo_ids_150, drop 100 demo_ids_150] \<and>
       concat (posts (trace c)) = demo_ids_150 \<and>
       list_all (\<lambda>b. b \<noteq> [] \<and> length b \<le> 100) (posts (trace c)) \<and>
       map length (posts (trace c)) = [100, 50]"
proof -
  from demo_run_150 obtain c where
    run: "check_for_updates demo_world demo_ids_150 demo_db = Inr c" by blast
  have len: "length demo_ids_150 = 150" by (simp add: demo_ids_150_def)
  have two: "[0..<(150 + 99) div 100] = [0, 1]"
    by (simp add: upt_conv_Cons)
  note all = one_request_per_batch [OF run, unfolded len]
  have p: "posts (trace c) =
      map (\<lambda>k. take 100 (drop (100 * k) demo_ids_150)) [0..<(150 + 99) div 100]"
    by (rule all [THEN conjunct1])
  have q: "concat (posts (trace c)) = demo_ids_150"
    by (rule all [THEN conjunct2, THEN conjunct1])
  have r: "\<forall>b\<in>set (posts (trace c)). b \<noteq> [] \<and> length b \<le> 100"
    by (rule all [THEN conjunct2, THEN conjunct2, THEN conjunct1])
  have t: "map length (posts (trace c)) = [100, 50]"
    using all [THEN conjunct2, THEN conjunct2, THEN conjunct2] by simp
  from p have p': "posts (trace c) = [take 100 demo_ids_150, drop 100 demo_ids_150]"
    by (simp only: two) (simp add: len)
  from r have r': "list_all (\<lambda>b. b \<noteq> [] \<and> length b \<le> 100) (posts (trace c))"
    by (simp only: list_all_iff)
  from run len p' q r' t show ?thesis
    by (intro exI [of _ c] conjI) assumption+
qed

text \<open>
  The cycle of \<open>far_world\<close> over 150 ids: the first reply makes
  \<open>datetime.fromtimestamp\<close> raise, and the cycle ends after one request of 100 ids; the
  batch of the other 50 ids is never requested.
\<close>

theorem aborted_cycle_one_request:
  "length demo_ids_150 = 150 \<and>
   length (batch_at demo_ids_150 0) = 100 \<and>
   check_for_updates far_world demo_ids_150 demo_db =
     Inl (TimestampError, [Post (batch_at demo_ids_150 0)])"
proof -
  have "length demo_ids_150 = 150" "length (batch_at demo_ids_150 0) = 100"
    by (simp_all add: demo_ids_150_def batch_at_def batch_size_def)
  moreover have "check_for_updates far_world demo_ids_150 demo_db =
     Inl (TimestampError, [Post (batch_at demo_ids_150 0)])"
    by (simp add: check_for_updates_def demo_starts_150 far_world_def
        fd_far_def demo_db_def Let_def process_details_def
        title_of_def time_updated_of_def sqlite_integer_def)
  ultimately show ?thesis by simp
qed

text \<open>
  C8: when the first of two lookups fails, the code goes from the first request to the
  second without \<open>time.sleep(1)\<close>: the only delay of the cycle follows the second batch.
\<close>

theorem no_sleep_after_failed_batch:
  "\<exists>c. check_for_updates flaky_world demo_ids demo_db = Inr c \<and>
       trace c = [Post (batch_at demo_ids 0), Post (batch_at demo_ids 100), Sleep 1]"
  by (simp add: check_for_updates_def demo_starts flaky_world_def Let_def)

section \<open>The notification\<close>

lemma append_mod_fields_eq:
  "append_mod_fields ms e = e\<lparr>em_fields := em_fields e @ map mod_field ms\<rparr>"
  by (induction ms arbitrary: e) simp_all
lemma additional_not_mod: "additional_updates_field k \<noteq> mod_field m"
  by (simp add: additional_updates_field_def mod_field_def)

lemma additional_not_action: "additional_updates_field k \<noteq> action_required_field"
  by (simp add: additional_updates_field_def action_required_field_def)

lemma digit_cases:
  assumes "d < (10::nat)"
  shows "d = 0 \<or> d = 1 \<or> d = 2 \<or> d = 3 \<or> d = 4 \<or> d = 5 \<or> d = 6 \<or> d = 7 \<or> d = 8 \<or> d = 9"
  using assms by arith

lemma digit_code: "d < 10 \<Longrightarrow> of_char (''0123456789'' ! d) = (48 + d :: nat)"
  by (drule digit_cases) (elim disjE; simp)

lemma digit_in: "d < 10 \<Longrightarrow> ''0123456789'' ! d \<in> set ''0123456789''"
  by (rule nth_mem) simp

lemma digit_nonzero: "0 < d \<Longrightarrow> d < 10 \<Longrightarrow> ''0123456789'' ! d \<noteq> CHR ''0''"
  by (drule digit_cases) (elim disjE; simp)

lemma dec_value_snoc: "dec_value (ds @ [ch]) = 10 * dec_value ds + (of_char ch - 48)"
  by (simp add: dec_value_def)

text \<open>
  \<open>str_nat\<close> writes a number in decimal: digits only, no leading zero, and the value of
  the digits is the number.
\<close>

lemma str_nat_decimal:
  "dec_value (str_nat n) = n \<and> str_nat n \<noteq> [] \<and> set (str_nat n) \<subseteq> set ''0123456789'' \<and>
   (0 < n \<longrightarrow> hd (str_nat n) \<noteq> CHR ''0'')"
proof (induction n rule: str_nat.induct)
  case (1 n)
  show ?case
  proof (cases "n < 10")
    case True
    have s: "str_nat n = [''0123456789'' ! n]"
      using True by (subst str_nat.simps) simp
    show ?thesis
      using True digit_code [OF True] digit_in [OF True] digit_nonzero [of n]
      by (simp add: s dec_value_def)
  next
    case False
    have s: "str_nat n = str_nat (n div 10) @ [''0123456789'' ! (n mod 10)]"
      using False by (subst str_nat.simps) simp
    have d: "n mod 10 < 10" by simp
    have pos: "0 < n div 10" using False by simp
    from "1" False have ih: "dec_value (str_nat (n div 10)) = n div 10"
      "str_nat (n div 10) \<noteq> []" "set (str_nat (n div 10)) \<subseteq> set ''0123456789''"
      "hd (str_nat (n div 10)) \<noteq> CHR ''0''"
      using pos by simp_all
    have "dec_value (str_nat n) = n"
      using ih(1) digit_code [OF d] by (simp add: s dec_value_snoc)
    moreover have "set (str_nat n) \<subseteq> set ''0123456789''"
      using ih(3) digit_in [OF d] by (simp add: s)
    moreover have "hd (str_nat n) \<noteq> CHR ''0''"
      using ih(2,4) by (simp add: s)
    ultimately show ?thesis by (simp add: s)
  qed
qed

lemma mod_field_not_summary:
  "ef_value (mod_field m) \<noteq> ''And '' @ ds @ '' more mods were updated.''"
  by (simp add: mod_field_def)

lemma action_required_not_summary:
  "ef_value action_required_field \<noteq> ''And '' @ ds @ '' more mods were updated.''"
  by (simp add: action_required_field_def)

text \<open>
  C7: no payload is sent for an empty list; for 1 to 10 mods one payload is sent, whose
  fields are one per mod followed by the restart line, with no line about further mods;
  for more than 10 mods one payload is sent, whose fields are the first 10 mods, the line
  "And N more mods were updated." and the restart line, where N is the decimal numeral,
  without leading zero, of the number of mods left out.
\<close>

theorem notification_capping:
  "(ums = [] \<longrightarrow> send_discord_notification now_iso ums = []) \<and>
   (1 \<le> length ums \<and> length ums \<le> 10 \<longrightarrow>
      (\<exists>p e. send_discord_notification now_iso ums = [p] \<and> pl_embeds p = [e] \<and>
         em_fields e = map mod_field ums @ [action_required_field] \<and>
         (\<forall>k. additional_updates_field k \<notin> set (em_fields e)) \<and>
         (\<forall>f\<in>set (em_fields e). \<forall>ds.
            ef_value f \<noteq> ''And '' @ ds @ '' more mods were updated.''))) \<and>
   (10 < length ums \<longrightarrow>
      (\<exists>p e summary ds. send_discord_notification now_iso ums = [p] \<and> pl_embeds p = [e] \<and>
         em_fields e = map mod_field (take 10 ums) @ [summary, action_required_field] \<and>
         summary = additional_updates_field (length ums - 10) \<and>
         ef_value summary = ''And '' @ ds @ '' more mods were updated.'' \<and>
         \<not> ef_inline summary \<and>
         ds \<noteq> [] \<and> set ds \<subseteq> set ''0123456789'' \<and> hd ds \<noteq> CHR ''0'' \<and>
         dec_value ds = length ums - 10))"
proof (intro conjI impI)
  show "send_discord_notification now_iso ums = []" if "ums = []"
    using that by (simp add: send_discord_notification_def)
next
  assume n: "1 \<le> length ums \<and> length ums \<le> 10"
  then have ne: "ums \<noteq> []" by auto
  let ?fields = "map mod_field ums @ [action_required_field]"
  have a: "\<And>k. additional_updates_field k \<notin> set ?fields"
    using additional_not_mod additional_not_action by auto
  have b: "\<forall>f\<in>set ?fields. \<forall>ds. ef_value f \<noteq> ''And '' @ ds @ '' more mods were updated.''"
    using mod_field_not_summary action_required_not_summary by auto
  from n ne a b show "\<exists>p e. send_discord_notification now_iso ums = [p] \<and> pl_embeds p = [e] \<and>
         em_fields e = map mod_field ums @ [action_required_field] \<and>
         (\<forall>k. additional_updates_field k \<notin> set (em_fields e)) \<and>
         (\<forall>f\<in>set (em_fields e). \<forall>ds.
            ef_value f \<noteq> ''And '' @ ds @ '' more mods were updated.'')"
    by (simp add: send_discord_notification_def Let_def append_mod_fields_eq)
next
  assume n: "10 < length ums"
  then have ne: "ums \<noteq> []" by auto
  let ?k = "length ums - 10"
  from n have pos: "0 < ?k" by simp
  from str_nat_decimal [of ?k] pos
  have ds: "str_nat ?k \<noteq> []" "set (str_nat ?k) \<subseteq> set ''0123456789''"
    "hd (str_nat ?k) \<noteq> CHR ''0''" "dec_value (str_nat ?k) = ?k"
    by simp_all
  have sent: "send_discord_notification now_iso ums =
      [\<lparr>pl_embeds = [\<lparr>em_title = [CHR 0xF0, CHR 0x9F, CHR 0x94, CHR 0x84] @
                            '' DayZ Server Mod Updates Detected!'',
               em_description = ''**'' @ str_nat (length ums) @ '' mod(s) have been updated**'',
               em_color = 0x00ff00,
               em_timestamp = now_iso,
               em_footer_text = ''GTX Gaming DayZ Server Monitor'',
               em_fields = map mod_field (take 10 ums) @
                 [additional_updates_field ?k, action_required_field]\<rparr>],
         pl_content = ''@here Mod updates detected for DayZ server!''\<rparr>]"
    using n ne by (simp add: send_discord_notification_def Let_def append_mod_fields_eq)
  have v: "ef_value (additional_updates_field ?k) =
      ''And '' @ str_nat ?k @ '' more mods were updated.''"
    "\<not> ef_inline (additional_updates_field ?k)"
    by (simp_all add: additional_updates_field_def)
  show "\<exists>p e summary ds. send_discord_notification now_iso ums = [p] \<and> pl_embeds p = [e] \<and>
         em_fields e = map mod_field (take 10 ums) @ [summary, action_required_field] \<and>
         summary = additional_updates_field (length ums - 10) \<and>
         ef_value summary = ''And '' @ ds @ '' more mods were updated.'' \<and>
         \<not> ef_inline summary \<and>
         ds \<noteq> [] \<and> set ds \<subseteq> set ''0123456789'' \<and> hd ds \<noteq> CHR ''0'' \<and>
         dec_value ds = length ums - 10"
    apply (rule exI, rule exI, rule exI [of _ "additional_updates_field ?k"],
           rule exI [of _ "str_nat ?k"])
    apply (intro conjI)
             apply (rule sent)
            apply simp
           apply simp
          apply (rule refl)
         apply (rule v(1))
        apply (rule v(2))
       apply (rule ds(1))
      apply (rule ds(2))
     apply (rule ds(3))
    apply (rule ds(4))
    done
qed

theorem notification_capping_witness:
  "send_discord_notification ''2025-10-06T12:00:00'' (demo_mods 0) = [] \<and>
   (\<exists>p e. send_discord_notification ''2025-10-06T12:00:00'' (demo_mods 3) = [p] \<and>
      pl_embeds p = [e] \<and>
      em_fields e = map mod_field (demo_mods 3) @ [action_required_field] \<and>
      length (em_fields e) = 4) \<and>
   (\<exists>p e. send_discord_notification ''2025-10-06T12:00:00'' (demo_mods 15) = [p] \<and>
      pl_embeds p = [e] \<and>
      take 10 (em_fields e) = map mod_field (take 10 (demo_mods 15)) \<and>
      length (em_fields e) = 12 \<and>
      ef_value (em_fields e ! 10) = ''And 5 more mods were updated.'' \<and>
      em_fields e ! 11 = action_required_field) \<and>
   (\<exists>p e. send_discord_notification ''2025-10-06T12:00:00'' (demo_mods 25) = [p] \<and>
      pl_embeds p = [e] \<and>
      take 10 (em_fields e) = map mod_field (take 10 (demo_mods 25)) \<and>
      length (em_fields e) = 12 \<and>
      ef_value (em_fields e ! 10) = ''And 15 more mods were updated.'' \<and>
      em_fields e ! 11 = action_required_field)"
proof -
  have l0: "demo_mods 0 = []" and l3: "length (demo_mods 3) = 3"
    and l15: "length (demo_mods 15) = 15" and l25: "length (demo_mods 25) = 25"
    by (simp_all add: demo_mods_def)
  have five: "str_nat 5 = ''5''" and fifteen: "str_nat 15 = ''15''"
    by (simp_all add: str_nat.simps)
  from notification_capping [of "demo_mods 0" "''2025-10-06T12:00:00''"] l0
  have a: "send_discord_notification ''2025-10-06T12:00:00'' (demo_mods 0) = []" by simp
  from notification_capping [of "demo_mods 3" "''2025-10-06T12:00:00''"] l3
  have b: "\<exists>p e. send_discord_notification ''2025-10-06T12:00:00'' (demo_mods 3) = [p] \<and>
      pl_embeds p = [e] \<and>
      em_fields e = map mod_field (demo_mods 3) @ [action_required_field] \<and>
      length (em_fields e) = 4"
    by auto
  from notification_capping [of "demo_mods 15" "''2025-10-06T12:00:00''"] l15
  obtain p e where c0: "send_discord_notification ''2025-10-06T12:00:00'' (demo_mods 15) = [p]"
    "pl_embeds p = [e]"
    "em_fields e = map mod_field (take 10 (demo_mods 15)) @
       [additional_updates_field 5, action_required_field]"
    by auto
  have len15: "length (map mod_field (take 10 (demo_mods 15))) = 10"
    by (simp add: l15)
  from c0(3) len15 five have c1: "take 10 (em_fields e) = map mod_field (take 10 (demo_mods 15))"
    "length (em_fields e) = 12"
    "ef_value (em_fields e ! 10) = ''And 5 more mods were updated.''"
    "em_fields e ! 11 = action_required_field"
    by (simp_all add: nth_append additional_updates_field_def)
  from notification_capping [of "demo_mods 25" "''2025-10-06T12:00:00''"] l25
  obtain p' e' where d0:
    "send_discord_notification ''2025-10-06T12:00:00'' (demo_mods 25) = [p']"
    "pl_embeds p' = [e']"
    "em_fields e' = map mod_field (take 10 (demo_mods 25)) @
       [additional_updates_field 15, action_required_field]"
    by auto
  have len25: "length (map mod_field (take 10 (demo_mods 25))) = 10"
    by (simp add: l25)
  from d0(3) len25 fifteen have d1:
    "take 10 (em_fields e') = map mod_field (take 10 (demo_mods 25))"
    "length (em_fields e') = 12"
    "ef_value (em_fields e' ! 10) = ''And 15 more mods were updated.''"
    "em_fields e' ! 11 = action_required_field"
    by (simp_all add: nth_append additional_updates_field_def)
  from a b c0(1,2) c1 d0(1,2) d1 show ?thesis by blast
qed

end
